theory Spec2Isabelle
  imports Complex_Main "HOL-Library.Sublist"
begin

section \<open>Data exchanged between the dashboard and the render worker\<close>

text \<open>
  JavaScript numbers are modelled as exact reals: rounding of IEEE doubles, NaN and the
  infinities are outside the model. A metric id is a string.
\<close>

record MetricDescriptor =
  metric :: string
  label :: string
  unit :: string

record MetricRenderState = MetricDescriptor +
  "value" :: real
  timestamp :: real

text \<open>The store's \<open>MetricPayload\<close> has the same five fields as \<open>MetricRenderState\<close>.\<close>

type_synonym MetricPayload = MetricRenderState

text \<open>
  The 2D drawing context keeps the three settings \<open>ensureContext\<close> writes. A canvas
  has its size and the context \<open>getContext('2d')\<close> hands out (\<open>None\<close> for null).
\<close>

record Context2D =
  imageSmoothingEnabled :: bool
  textBaseline :: string
  transform :: "real \<times> real \<times> real \<times> real \<times> real \<times> real"

record OffscreenCanvas =
  width :: real
  height :: real
  getContext :: "Context2D option"

datatype WorkerMessage =
    Init OffscreenCanvas "MetricDescriptor list" real real real
  | Resize real real real
  | MetricsBatch "MetricRenderState list"

section \<open>The metrics store (stores/metrics)\<close>

record MetricsStore =
  metrics :: "string \<rightharpoonup> MetricPayload"
  queue :: "MetricPayload list"

definition useMetricsStore :: MetricsStore where
  "useMetricsStore =
     \<lparr>metrics = Map.empty, queue = []\<rparr>"

definition addMeasurement :: "MetricPayload \<Rightarrow> MetricsStore \<Rightarrow> MetricsStore" where
  "addMeasurement payload st =
     st\<lparr>metrics := (metrics st)(metric payload \<mapsto> payload),
        queue := queue st @ [payload]\<rparr>"

text \<open>\<open>dequeueBatch\<close> returns the batch and the store it leaves behind.\<close>

definition dequeueBatch :: "MetricsStore \<Rightarrow> MetricPayload list \<times> MetricsStore" where
  "dequeueBatch st =
     (if length (queue st) = 0 then ([], st)
      else (take (length (queue st)) (queue st),
            st\<lparr>queue := drop (length (queue st)) (queue st)\<rparr>))"

text \<open>
  A client of the store makes a sequence of calls; \<open>run_calls\<close> performs them in order
  and collects what each \<open>dequeueBatch\<close> returned.
\<close>

datatype store_call = Add MetricPayload | DrainAll

fun run_calls :: "store_call list \<Rightarrow> MetricsStore \<Rightarrow> MetricPayload list list \<times> MetricsStore" where
  "run_calls [] st = ([], st)"
| "run_calls (Add p # cs) st = run_calls cs (addMeasurement p st)"
| "run_calls (DrainAll # cs) st =
     (let (batch, st') = dequeueBatch st;
          (rest, st'') = run_calls cs st'
      in (batch # rest, st''))"

fun added :: "store_call list \<Rightarrow> MetricPayload list" where
  "added [] = []"
| "added (Add p # cs) = p # added cs"
| "added (DrainAll # cs) = added cs"

section \<open>The frame loop of the dashboard component (HmiDashboard.vue)\<close>

text \<open>
  A worker is seen from the dashboard as the list of messages posted to it so far.
  \<open>workerRef\<close> is \<open>None\<close> while the reference is null.
\<close>

record Dashboard =
  store :: MetricsStore
  workerRef :: "WorkerMessage list option"

definition loop :: "Dashboard \<Rightarrow> Dashboard" where
  "loop d =
     (let (updates, st') = dequeueBatch (store d);
          d' = d\<lparr>store := st'\<rparr>
      in if length updates \<noteq> 0
         then (case workerRef d' of
                 None \<Rightarrow> d'
               | Some posted \<Rightarrow> d'\<lparr>workerRef := Some (posted @ [MetricsBatch updates])\<rparr>)
         else d')"

text \<open>
  \<open>setupWorker\<close> creates the worker, stores the reference and posts the init message;
  the canvas size and pixel ratio it read from the page are its arguments.
\<close>

definition setupWorker ::
  "OffscreenCanvas \<Rightarrow> MetricDescriptor list \<Rightarrow> real \<Rightarrow> real \<Rightarrow> real \<Rightarrow> Dashboard \<Rightarrow> Dashboard" where
  "setupWorker offscreen descriptors w h ratio d =
     d\<lparr>workerRef := Some [Init offscreen descriptors w h ratio]\<rparr>"

datatype dashboard_event =
    Measurement MetricPayload
  | Tick
  | SetupWorker OffscreenCanvas "MetricDescriptor list" real real real

fun dashboard_step :: "dashboard_event \<Rightarrow> Dashboard \<Rightarrow> Dashboard" where
  "dashboard_step (Measurement p) d = d\<lparr>store := addMeasurement p (store d)\<rparr>"
| "dashboard_step Tick d = loop d"
| "dashboard_step (SetupWorker c ds w h r) d = setupWorker c ds w h r d"

fun dashboard_run :: "dashboard_event list \<Rightarrow> Dashboard \<Rightarrow> Dashboard" where
  "dashboard_run [] d = d"
| "dashboard_run (e # es) d = dashboard_run es (dashboard_step e d)"

text \<open>The payloads of the batch messages among the posted messages, in posting order.\<close>

fun delivered :: "WorkerMessage list \<Rightarrow> MetricPayload list" where
  "delivered [] = []"
| "delivered (MetricsBatch us # ms) = us @ delivered ms"
| "delivered (m # ms) = delivered ms"

definition delivered_to :: "Dashboard \<Rightarrow> MetricPayload list" where
  "delivered_to d = (case workerRef d of None \<Rightarrow> [] | Some posted \<Rightarrow> delivered posted)"

fun measured :: "dashboard_event list \<Rightarrow> MetricPayload list" where
  "measured [] = []"
| "measured (Measurement p # es) = p # measured es"
| "measured (e # es) = measured es"

section \<open>The render worker (workers/renderWorker.ts)\<close>

text \<open>
  The worker's module-level variables are the fields of one state record. Drawing and
  posting are outputs: a frame returns the canvas calls it made, in order, and the debug
  message it posted. An exception thrown inside a message handler leaves the variables
  as they were at the throw, so the error carries that state.
\<close>

datatype worker_error = ContextUnavailable

datatype canvas_text = Text string | NumberText real

datatype canvas_call =
    Save
  | BeginPath
  | Rect real real real real
  | Clip
  | FillStyle string
  | GlobalAlpha real
  | FillRect real real real real
  | Font string
  | FillText canvas_text real real
  | Restore
  | ClearRect real real real real

datatype DebugMessage = Debug real real "real option" "real option"

record FrameOutput =
  calls :: "canvas_call list"
  message :: "DebugMessage option"

record RenderWorker =
  canvas :: "OffscreenCanvas option"
  ctx :: "Context2D option"
  width :: real
  height :: real
  dpr :: real
  metrics :: "MetricDescriptor list"
  metricState :: "string \<rightharpoonup> MetricRenderState"
  dirtyMetrics :: "string set"
  needsFullRedraw :: bool
  lastFrameTime :: real
  fps :: real
  renderMs :: real
  latencySamples :: "real list"

type_synonym worker_result = "(worker_error \<times> RenderWorker) + RenderWorker"

text \<open>The module's initial values; \<open>t0\<close> is \<open>performance.now()\<close> at load.\<close>

definition initialWorker :: "real \<Rightarrow> RenderWorker" where
  "initialWorker t0 =
     \<lparr>canvas = None, ctx = None, width = 1280, height = 720, dpr = 1, metrics = [],
      metricState = Map.empty, dirtyMetrics = {}, needsFullRedraw = True,
      lastFrameTime = t0, fps = 60, renderMs = 0, latencySamples = []\<rparr>"

definition backgroundColor :: string where "backgroundColor = ''#0c1018''"
definition cardColor :: string where "cardColor = ''#1f2a3b''"
definition accentColor :: string where "accentColor = ''#4dd0e1''"
definition valueColor :: string where "valueColor = ''#f4faff''"
definition textColor :: string where "textColor = ''#9db0c6''"

definition ensureContext :: "RenderWorker \<Rightarrow> worker_result" where
  "ensureContext s =
     (case canvas s of
        None \<Rightarrow> Inr s
      | Some c \<Rightarrow>
          (case getContext c of
             None \<Rightarrow> Inl (ContextUnavailable, s\<lparr>ctx := None\<rparr>)
           | Some cx \<Rightarrow>
               Inr (s\<lparr>ctx := Some (cx\<lparr>imageSmoothingEnabled := True,
                                      textBaseline := ''middle'',
                                      transform := (dpr s, 0, 0, dpr s, 0, 0)\<rparr>)\<rparr>)))"

definition resize :: "real \<Rightarrow> real \<Rightarrow> real \<Rightarrow> RenderWorker \<Rightarrow> worker_result" where
  "resize nextWidth nextHeight nextDpr s =
     (let s1 = s\<lparr>width := nextWidth, height := nextHeight, dpr := nextDpr\<rparr>
      in case canvas s1 of
           None \<Rightarrow> Inr s1
         | Some c \<Rightarrow>
             (case ensureContext
                     (s1\<lparr>canvas := Some (c\<lparr>OffscreenCanvas.width := width s1 * dpr s1,
                                            OffscreenCanvas.height := height s1 * dpr s1\<rparr>)\<rparr>) of
                Inl e \<Rightarrow> Inl e
              | Inr s2 \<Rightarrow>
                  Inr (s2\<lparr>dirtyMetrics := foldl (\<lambda>d m. insert (metric m) d) {} (metrics s2),
                          needsFullRedraw := True\<rparr>)))"

text \<open>Reading an array at an index: \<open>None\<close> where JavaScript yields \<open>undefined\<close>.\<close>

definition at_index :: "real list \<Rightarrow> int \<Rightarrow> real option" where
  "at_index xs i = (if 0 \<le> i \<and> nat i < length xs then Some (xs ! nat i) else None)"

text \<open>
  \<open>quantile\<close> returns \<open>None\<close> where the source returns \<open>undefined\<close> or computes with it
  (an index outside the sorted array).
\<close>

definition quantile :: "real list \<Rightarrow> real \<Rightarrow> real option" where
  "quantile values q =
     (if length values = 0 then Some 0
      else
        let sorted' = sort values;
            index = real (length sorted' - 1) * q;
            lower = \<lfloor>index\<rfloor>;
            upper = \<lceil>index\<rceil>
        in if lower = upper then at_index sorted' lower
           else
             let weight = index - of_int lower
             in case (at_index sorted' lower, at_index sorted' upper) of
                  (Some a, Some b) \<Rightarrow> Some (a * (1 - weight) + b * weight)
                | _ \<Rightarrow> None)"

text \<open>The card rectangle \<open>(x, y, cardWidth, cardHeight)\<close> of a catalog index.\<close>

definition computeCardRect :: "RenderWorker \<Rightarrow> nat \<Rightarrow> real \<times> real \<times> real \<times> real" where
  "computeCardRect s index =
     (let columns = (4::nat);
          gap = (16::real);
          cardWidth = (width s - gap * (real columns + 1)) / real columns;
          cardHeight = (120::real);
          xIndex = index mod columns;
          yIndex = \<lfloor>real index / real columns\<rfloor>;
          x = gap + real xIndex * (cardWidth + gap);
          y = gap + of_int yIndex * (cardHeight + gap)
      in (x, y, cardWidth, cardHeight))"

definition drawMetric :: "RenderWorker \<Rightarrow> MetricRenderState \<Rightarrow> nat \<Rightarrow> canvas_call list" where
  \<open>drawMetric s m index =
     (case ctx s of
        None \<Rightarrow> []
      | Some _ \<Rightarrow>
          (let (x, y, cardWidth, cardHeight) = computeCardRect s index
           in [Save, BeginPath, Rect x y cardWidth cardHeight, Clip,
               FillStyle cardColor, GlobalAlpha 0.92, FillRect x y cardWidth cardHeight,
               GlobalAlpha 1,
               FillStyle accentColor, FillRect x y 4 cardHeight,
               FillStyle textColor, Font ''18px "Segoe UI", sans-serif'',
               FillText (Text (label m)) (x + 20) (y + 30),
               FillStyle valueColor, Font ''48px "Rajdhani", sans-serif'',
               FillText (NumberText (value m)) (x + 20) (y + cardHeight / 2 + 10),
               FillStyle textColor, Font ''20px "Segoe UI", sans-serif'',
               FillText (Text (unit m)) (x + 20) (y + cardHeight - 28),
               Restore]))\<close>

definition clearMetricArea :: "RenderWorker \<Rightarrow> nat \<Rightarrow> canvas_call list" where
  "clearMetricArea s index =
     (case ctx s of
        None \<Rightarrow> []
      | Some _ \<Rightarrow>
          (let (x, y, cardWidth, cardHeight) = computeCardRect s index
           in [ClearRect (x - 2) (y - 2) (cardWidth + 4) (cardHeight + 4)]))"

definition drawBackground :: "RenderWorker \<Rightarrow> canvas_call list" where
  "drawBackground s =
     (case ctx s of
        None \<Rightarrow> []
      | Some _ \<Rightarrow> [FillStyle backgroundColor, FillRect 0 0 (width s) (height s)])"

text \<open>
  One call of \<open>renderFrame\<close>: \<open>now\<close> is the frame's timestamp, \<open>start\<close> and \<open>finish\<close> are the
  two readings of \<open>performance.now()\<close> around the drawing. Every call asks for the next
  frame, so that request is not part of the result.
\<close>

definition renderFrame ::
  "real \<Rightarrow> real \<Rightarrow> real \<Rightarrow> RenderWorker \<Rightarrow> RenderWorker \<times> FrameOutput" where
  "renderFrame now start finish s =
     (case ctx s of
        None \<Rightarrow> (s, \<lparr>calls = [], message = None\<rparr>)
      | Some _ \<Rightarrow>
          (let frameDelta = now - lastFrameTime s;
               s1 = (if frameDelta > 0 then s\<lparr>fps := 1000 / frameDelta\<rparr> else s);
               s2 = s1\<lparr>lastFrameTime := now\<rparr>;
               (drawn, s3) =
                 (if needsFullRedraw s2 then
                    (drawBackground s2 @
                     concat (map (\<lambda>(index, descriptor).
                                    case metricState s2 (metric descriptor) of
                                      None \<Rightarrow> []
                                    | Some state \<Rightarrow> drawMetric s2 state index)
                                 (enumerate 0 (metrics s2))),
                     s2\<lparr>needsFullRedraw := False, dirtyMetrics := {}\<rparr>)
                  else if dirtyMetrics s2 \<noteq> {} then
                    (concat (map (\<lambda>(index, descriptor).
                                    if metric descriptor \<in> dirtyMetrics s2
                                    then clearMetricArea s2 index @
                                         (case metricState s2 (metric descriptor) of
                                            None \<Rightarrow> []
                                          | Some state \<Rightarrow> drawMetric s2 state index)
                                    else [])
                                 (enumerate 0 (metrics s2))),
                     s2\<lparr>dirtyMetrics := {}\<rparr>)
                  else ([], s2));
               s4 = s3\<lparr>renderMs := finish - start\<rparr>;
               latencyP50 = quantile (latencySamples s4) 0.5;
               latencyP95 = quantile (latencySamples s4) 0.95
           in (s4, \<lparr>calls = drawn,
                    message = Some (Debug (fps s4) (renderMs s4) latencyP50 latencyP95)\<rparr>)))"

text \<open>
  The body of the loop over a batch's updates; \<open>now\<close> is the reading of
  \<open>performance.now()\<close> taken for this update.
\<close>

definition applyUpdate :: "real \<Rightarrow> MetricRenderState \<Rightarrow> RenderWorker \<Rightarrow> RenderWorker" where
  "applyUpdate now update s =
     (let s1 = (case metricState s (metric update) of
                  None \<Rightarrow> s\<lparr>metricState := (metricState s)(metric update \<mapsto> update)\<rparr>
                | Some state \<Rightarrow>
                    s\<lparr>metricState := (metricState s)(metric update \<mapsto>
                         state\<lparr>value := value update, timestamp := timestamp update\<rparr>)\<rparr>);
          pushed = latencySamples s1 @ [now - timestamp update];
          s2 = s1\<lparr>latencySamples :=
                    (if length pushed > 360 then drop (length pushed - 360) pushed
                     else pushed)\<rparr>
      in s2\<lparr>dirtyMetrics := insert (metric update) (dirtyMetrics s2)\<rparr>)"

text \<open>
  The \<open>metricsBatch\<close> case: \<open>clock k\<close> is the \<open>k\<close>-th reading of \<open>performance.now()\<close>
  made while the handler runs, one per update.
\<close>

fun metricsBatch ::
  "(nat \<Rightarrow> real) \<Rightarrow> nat \<Rightarrow> MetricRenderState list \<Rightarrow> RenderWorker \<Rightarrow> RenderWorker" where
  "metricsBatch clock k [] s = s"
| "metricsBatch clock k (update # updates) s =
     metricsBatch clock (Suc k) updates (applyUpdate (clock k) update s)"

definition seedMetric :: "RenderWorker \<Rightarrow> MetricDescriptor \<Rightarrow> RenderWorker" where
  "seedMetric s descriptor =
     s\<lparr>metricState := (metricState s)(metric descriptor \<mapsto>
          \<lparr>metric = metric descriptor, label = label descriptor, unit = unit descriptor,
           value = 0, timestamp = 0\<rparr>),
       dirtyMetrics := insert (metric descriptor) (dirtyMetrics s)\<rparr>"

fun onMessage :: "(nat \<Rightarrow> real) \<Rightarrow> WorkerMessage \<Rightarrow> RenderWorker \<Rightarrow> worker_result" where
  "onMessage clock (Init c ms w h r) s =
     (case resize w h r (s\<lparr>canvas := Some c, metrics := ms\<rparr>) of
        Inl e \<Rightarrow> Inl e
      | Inr s1 \<Rightarrow>
          (case ensureContext (foldl seedMetric s1 (metrics s1)) of
             Inl e \<Rightarrow> Inl e
           | Inr s2 \<Rightarrow> Inr (s2\<lparr>needsFullRedraw := True\<rparr>)))"
| "onMessage clock (Resize w h r) s = resize w h r s"
| "onMessage clock (MetricsBatch updates) s = Inr (metricsBatch clock 0 updates s)"

text \<open>
  What the worker goes through: messages, each with the clock readings of its handler,
  and frames. The state after a handler that threw is the state at the throw.
\<close>

datatype worker_event =
    Message "nat \<Rightarrow> real" WorkerMessage
  | Frame real real real

definition state_of :: "worker_result \<Rightarrow> RenderWorker" where
  "state_of r = (case r of Inl (e, s) \<Rightarrow> s | Inr s \<Rightarrow> s)"

fun worker_step :: "worker_event \<Rightarrow> RenderWorker \<Rightarrow> RenderWorker" where
  "worker_step (Message clock m) s = state_of (onMessage clock m s)"
| "worker_step (Frame now start finish) s = fst (renderFrame now start finish s)"

fun worker_run :: "worker_event list \<Rightarrow> RenderWorker \<Rightarrow> RenderWorker" where
  "worker_run [] s = s"
| "worker_run (e # es) s = worker_run es (worker_step e s)"

text \<open>The metric ids of the catalogs passed by init messages, and of the updates of batches.\<close>

fun catalog_ids :: "worker_event list \<Rightarrow> string set" where
  "catalog_ids [] = {}"
| "catalog_ids (Message clock (Init c ms w h r) # es) = set (map metric ms) \<union> catalog_ids es"
| "catalog_ids (e # es) = catalog_ids es"

fun update_ids :: "worker_event list \<Rightarrow> string set" where
  "update_ids [] = {}"
| "update_ids (Message clock (MetricsBatch updates) # es) = set (map metric updates) \<union> update_ids es"
| "update_ids (e # es) = update_ids es"

text \<open>
  The latency samples a run pushes, in order: for every update of every batch, the
  handler's clock reading for it minus the update's timestamp.
\<close>

fun batch_latencies :: "(nat \<Rightarrow> real) \<Rightarrow> nat \<Rightarrow> MetricRenderState list \<Rightarrow> real list" where
  "batch_latencies clock k [] = []"
| "batch_latencies clock k (update # updates) =
     (clock k - timestamp update) # batch_latencies clock (Suc k) updates"

fun observed :: "worker_event list \<Rightarrow> real list" where
  "observed [] = []"
| "observed (Message clock (MetricsBatch updates) # es) =
     batch_latencies clock 0 updates @ observed es"
| "observed (e # es) = observed es"

text \<open>A run of batch messages only, as between a resize and the frame after it.\<close>

fun batches :: "((nat \<Rightarrow> real) \<times> MetricRenderState list) list \<Rightarrow> worker_event list" where
  "batches [] = []"
| "batches ((clock, updates) # bs) = Message clock (MetricsBatch updates) # batches bs"

text \<open>Sample inputs: a canvas that has a 2D context, a two-entry catalog, two payloads.\<close>

definition sample_canvas :: OffscreenCanvas where
  "sample_canvas =
     \<lparr>OffscreenCanvas.width = 300, OffscreenCanvas.height = 150,
      getContext = Some \<lparr>imageSmoothingEnabled = False, textBaseline = ''alphabetic'',
                        transform = (1, 0, 0, 1, 0, 0)\<rparr>\<rparr>"

definition sample_catalog :: "MetricDescriptor list" where
  "sample_catalog =
     [\<lparr>metric = ''speed'', label = ''Speed'', unit = ''km/h''\<rparr>,
      \<lparr>metric = ''rpm'', label = ''Engine RPM'', unit = ''rpm''\<rparr>]"

definition sample_speed :: "real \<Rightarrow> MetricPayload" where
  "sample_speed t =
     \<lparr>metric = ''speed'', label = ''Speed'', unit = ''km/h'', value = 87, timestamp = t\<rparr>"

definition sample_unlisted :: MetricPayload where
  "sample_unlisted =
     \<lparr>metric = ''tyrePressure'', label = ''Tyre Pressure'', unit = ''bar'',
      value = 2, timestamp = 5\<rparr>"

definition sample_init :: worker_event where
  "sample_init = Message (\<lambda>k. 0) (Init sample_canvas sample_catalog 1280 720 1)"

definition sample_batch :: worker_event where
  "sample_batch = Message (\<lambda>k. 47) (MetricsBatch [sample_unlisted])"

definition sample_speed_batch :: worker_event where
  "sample_speed_batch = Message (\<lambda>k. 47) (MetricsBatch [sample_speed 5])"

text \<open>The newest \<open>n\<close> elements of a list, oldest first.\<close>

definition most_recent :: "nat \<Rightarrow> 'a list \<Rightarrow> 'a list" where
  "most_recent n xs = drop (length xs - n) xs"

text \<open>The worker's canvas is set and hands out a 2D context.\<close>

definition has_context :: "RenderWorker \<Rightarrow> bool" where
  "has_context s = (case canvas s of None \<Rightarrow> False | Some c \<Rightarrow> getContext c \<noteq> None)"

text \<open>
  The quantile as the specification words it: over the window sorted ascending, with
  \<open>n\<close> samples the index is \<open>(n - 1) * q\<close>; the ranked value at the index when it is
  integral, otherwise the linear interpolation between the values ranked at its floor
  and at its ceiling; \<open>0\<close> on an empty window.
\<close>

definition ranked :: "real list \<Rightarrow> nat \<Rightarrow> real" where
  "ranked window k = sort window ! k"

definition quantile_spec :: "real list \<Rightarrow> real \<Rightarrow> real" where
  "quantile_spec window q =
     (if window = [] then 0
      else
        let index = (real (length window) - 1) * q
        in if of_int \<lfloor>index\<rfloor> = index then ranked window (nat \<lfloor>index\<rfloor>)
           else ranked window (nat \<lfloor>index\<rfloor>)
                + (index - of_int \<lfloor>index\<rfloor>)
                  * (ranked window (nat \<lceil>index\<rceil>) - ranked window (nat \<lfloor>index\<rfloor>)))"

section \<open>The metrics store: every payload is drained once, in arrival order\<close>

lemma dequeueBatch_fst: "fst (dequeueBatch st) = queue st"
  by (simp add: dequeueBatch_def)

lemma dequeueBatch_queue: "queue (snd (dequeueBatch st)) = []"
  by (simp add: dequeueBatch_def)

lemma addMeasurement_queue: "queue (addMeasurement p st) = queue st @ [p]"
  by (simp add: addMeasurement_def)

lemma run_calls_partition:
  "concat (fst (run_calls cs st)) @ queue (snd (run_calls cs st)) = queue st @ added cs"
proof (induction cs arbitrary: st)
  case Nil
  show ?case by simp
next
  case (Cons c cs)
  show ?case
  proof (cases c)
    case (Add p)
    then show ?thesis
      using Cons.IH [of "addMeasurement p st"] by (simp add: addMeasurement_queue)
  next
    case DrainAll
    have "concat (fst (run_calls (c # cs) st)) @ queue (snd (run_calls (c # cs) st))
        = fst (dequeueBatch st) @ concat (fst (run_calls cs (snd (dequeueBatch st))))
            @ queue (snd (run_calls cs (snd (dequeueBatch st))))"
      using DrainAll by (simp add: split_beta Let_def)
    also have "\<dots> = queue st @ added cs"
      using Cons.IH [of "snd (dequeueBatch st)"]
      by (simp add: dequeueBatch_fst dequeueBatch_queue)
    finally show ?thesis using DrainAll by simp
  qed
qed

lemma run_calls_append:
  "run_calls (cs @ ds) st =
     (fst (run_calls cs st) @ fst (run_calls ds (snd (run_calls cs st))),
      snd (run_calls ds (snd (run_calls cs st))))"
proof (induction cs arbitrary: st)
  case Nil
  show ?case by simp
next
  case (Cons c cs)
  show ?case
  proof (cases c)
    case (Add p)
    then show ?thesis using Cons.IH [of "addMeasurement p st"] by simp
  next
    case DrainAll
    then show ?thesis
      using Cons.IH [of "snd (dequeueBatch st)"] by (simp add: split_beta Let_def)
  qed
qed

text \<open>
  C1. Whatever calls are made on the store, the batches returned by the drains,
  concatenated in the order of the drains and followed by what is still queued, are
  exactly the queue at the start followed by the added payloads in arrival order: every
  payload sits at one position of one batch. After a final drain nothing is left queued,
  so the batches alone are that sequence. A drain of an empty queue returns the empty
  batch, and so does a drain that follows a drain directly.
\<close>

theorem drainAll_exactly_once_in_order:
  "concat (fst (run_calls cs st)) @ queue (snd (run_calls cs st)) = queue st @ added cs
   \<and> concat (fst (run_calls (cs @ [DrainAll]) st)) = queue st @ added cs
   \<and> concat (fst (run_calls (cs @ [DrainAll]) useMetricsStore)) = added cs
   \<and> queue (snd (run_calls (cs @ [DrainAll]) st)) = []
   \<and> fst (dequeueBatch (st\<lparr>queue := []\<rparr>)) = []
   \<and> fst (dequeueBatch useMetricsStore) = []
   \<and> fst (dequeueBatch (snd (dequeueBatch st))) = []
   \<and> fst (run_calls (cs @ [DrainAll, DrainAll]) st)
       = fst (run_calls (cs @ [DrainAll]) st) @ [[]]"
proof -
  have q: "queue (snd (run_calls (cs @ [DrainAll]) st)) = []" for st
    by (simp add: run_calls_append dequeueBatch_queue split_beta Let_def)
  have c: "concat (fst (run_calls (cs @ [DrainAll]) st)) = queue st @ added cs" for st
  proof -
    have "added (cs @ [DrainAll]) = added cs"
      by (induction cs rule: added.induct) simp_all
    then show ?thesis
      using run_calls_partition [of "cs @ [DrainAll]" st] q [of st] by simp
  qed
  have e: "fst (dequeueBatch (snd (dequeueBatch st))) = []"
    by (simp add: dequeueBatch_fst dequeueBatch_queue)
  have d: "fst (run_calls (cs @ [DrainAll, DrainAll]) st)
             = fst (run_calls (cs @ [DrainAll]) st) @ [[]]"
    by (simp add: run_calls_append dequeueBatch_fst dequeueBatch_queue split_beta Let_def)
  have u: "queue useMetricsStore = []"
    by (simp add: useMetricsStore_def)
  show ?thesis
    using run_calls_partition [of cs st] c [of st] c [of useMetricsStore] q [of st] e d u
    by (simp add: dequeueBatch_fst)
qed

section \<open>The frame loop: a tick without a worker discards what it drained\<close>

lemma loop_without_worker:
  "workerRef d = None \<Longrightarrow> loop d = d\<lparr>store := (store d)\<lparr>queue := []\<rparr>\<rparr>"
  by (simp add: loop_def dequeueBatch_def split_beta Let_def)

lemma loop_queue: "queue (store (loop d)) = []"
  by (cases "workerRef d") (simp_all add: loop_def dequeueBatch_def Let_def)

lemma measured_Cons: "measured (e # es) = measured [e] @ measured es"
  by (cases "(e # es)" rule: measured.cases) auto

lemma delivered_append: "delivered (ms @ ns) = delivered ms @ delivered ns"
  by (induction ms rule: delivered.induct) auto

lemma step_subseq:
  "subseq (delivered_to (dashboard_step e d) @ queue (store (dashboard_step e d)))
          (delivered_to d @ queue (store d) @ measured [e])"
proof (cases e)
  case (Measurement p)
  then show ?thesis
    by (simp add: delivered_to_def addMeasurement_def)
next
  case Tick
  then show ?thesis
    by (cases "workerRef d")
       (simp_all add: loop_def dequeueBatch_def delivered_to_def delivered_append Let_def)
next
  case (SetupWorker c ds w h r)
  then show ?thesis
    by (simp add: setupWorker_def delivered_to_def subseq_drop_many)
qed

lemma run_subseq:
  "subseq (delivered_to (dashboard_run es d) @ queue (store (dashboard_run es d)))
          (delivered_to d @ queue (store d) @ measured es)"
proof (induction es arbitrary: d)
  case Nil
  show ?case by simp
next
  case (Cons e es)
  let ?d1 = "dashboard_step e d"
  have "subseq (delivered_to (dashboard_run es ?d1) @ queue (store (dashboard_run es ?d1)))
               ((delivered_to ?d1 @ queue (store ?d1)) @ measured es)"
    using Cons.IH [of ?d1] by simp
  moreover have "subseq ((delivered_to ?d1 @ queue (store ?d1)) @ measured es)
                        ((delivered_to d @ queue (store d) @ measured [e]) @ measured es)"
    by (rule list_emb_append_mono [OF step_subseq [of e d]]) simp
  ultimately have "subseq (delivered_to (dashboard_run es ?d1) @ queue (store (dashboard_run es ?d1)))
                          ((delivered_to d @ queue (store d) @ measured [e]) @ measured es)"
    by (rule subseq_order.trans)
  then show ?case
    using measured_Cons [of e es] by simp
qed

text \<open>
  C10. A tick always leaves the store's queue empty. When the worker reference is null
  the tick posts nothing: the dashboard afterwards is the one before with the queue
  emptied, so the drained payloads are gone. Whatever happens later (measurements, ticks,
  the worker being set up), the payloads delivered in batch messages are, in order, a
  subsequence of the payloads measured after that tick.
\<close>

theorem tick_without_worker_discards:
  "queue (store (loop d)) = []
   \<and> (workerRef d = None \<longrightarrow>
        workerRef (loop d) = None
        \<and> loop d = d\<lparr>store := (store d)\<lparr>queue := []\<rparr>\<rparr>
        \<and> subseq (delivered_to (dashboard_run es (loop d))) (measured es))"
proof -
  have "subseq (delivered_to (dashboard_run es (loop d))) (measured es)"
    if n: "workerRef d = None"
  proof -
    have "subseq (delivered_to (dashboard_run es (loop d)))
                 (delivered_to (dashboard_run es (loop d))
                    @ queue (store (dashboard_run es (loop d))))"
      by (rule subseq_rev_drop_many) simp
    also have "subseq \<dots> (delivered_to (loop d) @ queue (store (loop d)) @ measured es)"
      by (rule run_subseq)
    also have "\<dots> = measured es"
      using n by (simp add: loop_without_worker delivered_to_def)
    finally show ?thesis .
  qed
  then show ?thesis
    using loop_queue [of d] by (simp add: loop_without_worker)
qed

theorem tick_without_worker_discards_witness:
  "workerRef \<lparr>store = addMeasurement sample_unlisted useMetricsStore, workerRef = None\<rparr> = None
   \<and> queue (store \<lparr>store = addMeasurement sample_unlisted useMetricsStore, workerRef = None\<rparr>)
       = [sample_unlisted]
   \<and> queue (store (loop \<lparr>store = addMeasurement sample_unlisted useMetricsStore,
                          workerRef = None\<rparr>)) = []
   \<and> delivered_to
        (dashboard_run
           [SetupWorker sample_canvas sample_catalog 1280 720 1, Measurement (sample_speed 3), Tick]
           (loop \<lparr>store = addMeasurement sample_unlisted useMetricsStore, workerRef = None\<rparr>))
       = [sample_speed 3]
   \<and> subseq
        (delivered_to
           (dashboard_run
              [SetupWorker sample_canvas sample_catalog 1280 720 1, Measurement (sample_speed 3), Tick]
              (loop \<lparr>store = addMeasurement sample_unlisted useMetricsStore, workerRef = None\<rparr>)))
        (measured
           [SetupWorker sample_canvas sample_catalog 1280 720 1, Measurement (sample_speed 3), Tick])"
  using tick_without_worker_discards
          [of "\<lparr>store = addMeasurement sample_unlisted useMetricsStore, workerRef = None\<rparr>"
              "[SetupWorker sample_canvas sample_catalog 1280 720 1, Measurement (sample_speed 3), Tick]"]
  by (simp add: loop_def dequeueBatch_def addMeasurement_def useMetricsStore_def setupWorker_def
        delivered_to_def Let_def)

section \<open>The card grid\<close>

lemma floor_index: "\<lfloor>real i / real (4::nat)\<rfloor> = int (i div 4)"
  by (rule floor_divide_of_nat_eq)

text \<open>
  C8. The grid has 4 columns and a gap of 16; a card is \<open>(width - 16 * 5) / 4\<close> wide and
  120 high; the card of catalog index \<open>i\<close> is in column \<open>i mod 4\<close> and row \<open>i div 4\<close>, its
  corner one gap plus that many card-and-gap steps from the origin. At width 1280 the
  card is 300 wide, and index 5 is in row 1, column 1.
\<close>

theorem card_grid_geometry:
  "computeCardRect s i =
     (16 + real (i mod 4) * ((width s - 16 * (4 + 1)) / 4 + 16),
      16 + real (i div 4) * (120 + 16),
      (width s - 16 * (4 + 1)) / 4,
      120)
   \<and> computeCardRect (s\<lparr>width := 1280\<rparr>) 5 = (16 + 1 * (300 + 16), 16 + 1 * (120 + 16), 300, 120)
   \<and> (5::nat) mod 4 = 1 \<and> (5::nat) div 4 = 1
   \<and> ((1280::real) - 16 * 5) / 4 = 300"
proof -
  have g: "computeCardRect t i =
     (16 + real (i mod 4) * ((width t - 16 * (4 + 1)) / 4 + 16),
      16 + real (i div 4) * (120 + 16),
      (width t - 16 * (4 + 1)) / 4,
      120)" for t i
    using floor_index [of i] by (simp add: computeCardRect_def Let_def)
  have "computeCardRect (s\<lparr>width := 1280\<rparr>) 5
          = (16 + 1 * (300 + 16), 16 + 1 * (120 + 16), 300, 120)"
    by (simp add: g)
  then show ?thesis using g [of s i] by simp
qed

section \<open>Quantiles of the latency window\<close>

lemma floor_eq_ceiling_iff: "\<lfloor>x::real\<rfloor> = \<lceil>x\<rceil> \<longleftrightarrow> of_int \<lfloor>x\<rfloor> = x"
proof
  assume "\<lfloor>x\<rfloor> = \<lceil>x\<rceil>"
  then have "x \<le> of_int \<lfloor>x\<rfloor>" by (metis le_of_int_ceiling)
  then show "of_int \<lfloor>x\<rfloor> = x" using of_int_floor_le [of x] by linarith
next
  assume "of_int \<lfloor>x\<rfloor> = x"
  then show "\<lfloor>x\<rfloor> = \<lceil>x\<rceil>" by (metis ceiling_of_int)
qed

lemma quantile_empty: "quantile [] q = Some 0"
  by (simp add: quantile_def)

lemma quantile_in_range:
  assumes "0 \<le> q" "q \<le> 1"
  shows "quantile values q = Some (quantile_spec values q)"
proof (cases "values = []")
  case True
  then show ?thesis by (simp add: quantile_def quantile_spec_def)
next
  case False
  define n where "n = length values"
  define index where "index = real (n - 1) * q"
  have n: "0 < n" using False by (simp add: n_def)
  then have rn: "real (n - 1) = real n - 1" by (simp add: of_nat_diff)
  have i0: "0 \<le> index" using assms(1) by (simp add: index_def)
  have "real (n - 1) * q \<le> real (n - 1) * 1"
    using assms(2) by (intro mult_left_mono) simp_all
  then have i1: "index \<le> real (n - 1)" by (simp add: index_def)
  have l0: "0 \<le> \<lfloor>index\<rfloor>" using i0 by simp
  have "\<lfloor>index\<rfloor> \<le> \<lfloor>real (n - 1)\<rfloor>" using i1 by (rule floor_mono)
  then have l1: "\<lfloor>index\<rfloor> \<le> int (n - 1)" by simp
  have u0: "0 \<le> \<lceil>index\<rceil>" using i0 by (simp add: ceiling_le_iff le_ceiling_iff)
  have "\<lceil>index\<rceil> \<le> \<lceil>real (n - 1)\<rceil>" using i1 by (rule ceiling_mono)
  then have u1: "\<lceil>index\<rceil> \<le> int (n - 1)" by simp
  have ln: "nat \<lfloor>index\<rfloor> < length values" using l0 l1 n unfolding n_def by linarith
  have un: "nat \<lceil>index\<rceil> < length values" using u0 u1 n unfolding n_def by linarith
  have al: "at_index (sort values) \<lfloor>index\<rfloor> = Some (ranked values (nat \<lfloor>index\<rfloor>))"
    using l0 ln by (simp add: at_index_def ranked_def)
  have au: "at_index (sort values) \<lceil>index\<rceil> = Some (ranked values (nat \<lceil>index\<rceil>))"
    using u0 un by (simp add: at_index_def ranked_def)
  have alg: "a * (1 - w) + b * w = a + w * (b - a)" for a b w :: real
    by (simp add: algebra_simps)
  have idx: "(real (length values) - 1) * q = index"
    using rn by (simp add: index_def n_def)
  have idx': "real (length values - Suc 0) * q = index"
    by (simp add: index_def n_def)
  show ?thesis
    using False al au
    by (simp add: quantile_def quantile_spec_def Let_def idx idx' floor_eq_ceiling_iff alg)
qed

text \<open>
  C2, as stated for every \<open>q\<close>, fails outside the levels 0 to 1. On the window 10, 20
  the level 2 gives index 2, which is integral, but the sorted window has only the ranks
  0 and 1: the read at rank 2 yields no number. The level 1.5 gives index 1.5, whose
  ceiling 2 is again no rank, and the level -1 gives index -1. In all three cases
  \<open>quantile\<close> returns no ranked or interpolated value.
\<close>

theorem quantile_undefined_outside_unit_interval:
  "quantile [10, 20] 2 = None
   \<and> (2 - 1) * (2::real) = 2
   \<and> length (sort [10, 20 :: real]) = 2
   \<and> quantile [10, 20] 1.5 = None
   \<and> quantile [10, 20] (- 1) = None
   \<and> quantile [10, 20] 2 \<noteq> Some (quantile_spec [10, 20] 2)"
  by (simp add: quantile_def at_index_def Let_def)

text \<open>
  C2, amended. For a quantile level \<open>q\<close> between 0 and 1, \<open>quantile\<close> returns the linearly
  interpolated order statistic of the window sorted ascending: with \<open>n\<close> samples and
  index \<open>(n - 1) * q\<close>, the value ranked at the index when it is integral, otherwise the
  interpolation between the values ranked at its floor and ceiling. On an empty window it
  returns 0 for every \<open>q\<close>. On the window 10, 20, 30, 40, 50 (in any order) the median is
  30, and the 0.95 quantile has index 3.8 and lies between the two largest values, 40 and
  50, at weight 0.8.
\<close>

theorem quantile_interpolated_order_statistic:
  "(0 \<le> q \<and> q \<le> 1 \<longrightarrow> quantile values q = Some (quantile_spec values q))
   \<and> quantile [] q = Some 0
   \<and> quantile [10, 20, 30, 40, 50] 0.5 = Some 30
   \<and> quantile [50, 10, 40, 20, 30] 0.5 = Some 30
   \<and> quantile [10, 20, 30, 40, 50] 0.95 = Some (40 * (1 - 0.8) + 50 * 0.8)
   \<and> ranked [10, 20, 30, 40, 50] 3 = 40 \<and> ranked [10, 20, 30, 40, 50] 4 = 50
   \<and> (5 - 1) * (0.95::real) = 3.8"
proof -
  have "quantile [10, 20, 30, 40, 50] 0.5 = Some 30"
    by (simp add: quantile_def at_index_def Let_def)
  moreover have "quantile [50, 10, 40, 20, 30] 0.5 = Some 30"
    by (simp add: quantile_def at_index_def Let_def)
  moreover have "quantile [10, 20, 30, 40, 50] 0.95 = Some (40 * (1 - 0.8) + 50 * 0.8)"
    by (simp add: quantile_def at_index_def Let_def)
  moreover have "ranked [10, 20, 30, 40, 50] 3 = 40" "ranked [10, 20, 30, 40, 50] 4 = 50"
    by (simp_all add: ranked_def)
  ultimately show ?thesis
    using quantile_in_range [of q "values"] by (simp add: quantile_empty)
qed

theorem quantile_interpolated_order_statistic_witness:
  "(0::real) \<le> 0.95 \<and> (0.95::real) \<le> 1
   \<and> quantile [10, 20, 30, 40, 50] 0.95 = Some (quantile_spec [10, 20, 30, 40, 50] 0.95)
   \<and> quantile_spec [10, 20, 30, 40, 50] 0.95 = 48"
proof -
  note t = quantile_interpolated_order_statistic [of "0.95" "[10, 20, 30, 40, 50]"]
  have r: "(0::real) \<le> 0.95 \<and> (0.95::real) \<le> 1" by simp
  from t r have a: "quantile [10, 20, 30, 40, 50] 0.95 = Some (quantile_spec [10, 20, 30, 40, 50] 0.95)"
    by blast
  from t have b: "quantile [10, 20, 30, 40, 50] 0.95 = Some (40 * (1 - 0.8) + 50 * 0.8)"
    by blast
  from a b have "quantile_spec [10, 20, 30, 40, 50] 0.95 = 40 * (1 - 0.8) + 50 * 0.8"
    by simp
  then have "quantile_spec [10, 20, 30, 40, 50] 0.95 = 48" by simp
  then show ?thesis using a r by blast
qed

section \<open>Applying updates\<close>

lemma most_recent_append: "most_recent 360 (most_recent 360 xs @ ys) = most_recent 360 (xs @ ys)"
proof -
  have "length xs + length ys - (length xs - 360 + 360) + (length xs - 360)
          = length xs + length ys - 360"
    by arith
  then show ?thesis by (simp add: most_recent_def)
qed

lemma most_recent_length: "length (most_recent 360 xs) \<le> 360"
  by (simp add: most_recent_def)

lemma applyUpdate_samples:
  "latencySamples (applyUpdate now u s) = most_recent 360 (latencySamples s @ [now - timestamp u])"
  by (simp add: applyUpdate_def Let_def most_recent_def split: option.splits)

lemma applyUpdate_fields:
  "canvas (applyUpdate now u s) = canvas s"
  "ctx (applyUpdate now u s) = ctx s"
  "width (applyUpdate now u s) = width s"
  "height (applyUpdate now u s) = height s"
  "metrics (applyUpdate now u s) = metrics s"
  "needsFullRedraw (applyUpdate now u s) = needsFullRedraw s"
  "dirtyMetrics (applyUpdate now u s) = insert (metric u) (dirtyMetrics s)"
  "dom (metricState (applyUpdate now u s)) = insert (metric u) (dom (metricState s))"
  by (auto simp: applyUpdate_def Let_def split: option.splits)

lemma metricsBatch_fields:
  "canvas (metricsBatch clock k us s) = canvas s"
  "ctx (metricsBatch clock k us s) = ctx s"
  "width (metricsBatch clock k us s) = width s"
  "height (metricsBatch clock k us s) = height s"
  "metrics (metricsBatch clock k us s) = metrics s"
  "needsFullRedraw (metricsBatch clock k us s) = needsFullRedraw s"
  "dirtyMetrics (metricsBatch clock k us s) = dirtyMetrics s \<union> set (map metric us)"
  "dom (metricState (metricsBatch clock k us s)) = dom (metricState s) \<union> set (map metric us)"
  by (induction us arbitrary: k s) (auto simp: applyUpdate_fields)

text \<open>
  C7. Applying an update a second time, at whatever clock reading, leaves the render
  states as the first application left them; so does a batch that carries the update
  twice compared with a batch that carries it once.
\<close>

theorem applyBatch_idempotent_per_metric:
  "metricState (applyUpdate now' update (applyUpdate now update s))
     = metricState (applyUpdate now update s)
   \<and> metricState (applyUpdate now' update (applyUpdate now update s)) (metric update)
       = metricState (applyUpdate now update s) (metric update)
   \<and> metricState (metricsBatch clock k [update, update] s)
       = metricState (metricsBatch clock k [update] s)"
proof -
  have "metricState (applyUpdate n2 update (applyUpdate n1 update s))
          = metricState (applyUpdate n1 update s)" for n1 n2
    by (simp add: applyUpdate_def Let_def split: option.splits)
  then show ?thesis by simp
qed



section \<open>What the handlers and a frame change\<close>

lemma has_context_iff: "has_context s \<longleftrightarrow> (\<exists>c. canvas s = Some c \<and> getContext c \<noteq> None)"
  by (simp add: has_context_def split: option.splits)

lemma foldl_insert_ids: "foldl (\<lambda>d m. insert (metric m) d) A ms = A \<union> set (map metric ms)"
  by (induction ms arbitrary: A) auto

lemma resize_cases:
  "resize w h r s = Inr (s\<lparr>width := w, height := h, dpr := r\<rparr>) \<and> canvas s = None
   \<or> (\<exists>c. canvas s = Some c \<and> getContext c = None
          \<and> resize w h r s =
              Inl (ContextUnavailable,
                   s\<lparr>width := w, height := h, dpr := r,
                     canvas := Some (c\<lparr>OffscreenCanvas.width := w * r,
                                      OffscreenCanvas.height := h * r\<rparr>),
                     ctx := None\<rparr>))
   \<or> (\<exists>c cx. canvas s = Some c \<and> getContext c \<noteq> None
          \<and> resize w h r s =
              Inr (s\<lparr>width := w, height := h, dpr := r,
                     canvas := Some (c\<lparr>OffscreenCanvas.width := w * r,
                                      OffscreenCanvas.height := h * r\<rparr>),
                     ctx := Some cx,
                     dirtyMetrics := set (map metric (metrics s)),
                     needsFullRedraw := True\<rparr>))"
  by (auto simp: resize_def ensureContext_def Let_def foldl_insert_ids split: option.splits)

lemma foldl_seedMetric:
  "canvas (foldl seedMetric s ms) = canvas s"
  "ctx (foldl seedMetric s ms) = ctx s"
  "width (foldl seedMetric s ms) = width s"
  "height (foldl seedMetric s ms) = height s"
  "dpr (foldl seedMetric s ms) = dpr s"
  "metrics (foldl seedMetric s ms) = metrics s"
  "needsFullRedraw (foldl seedMetric s ms) = needsFullRedraw s"
  "latencySamples (foldl seedMetric s ms) = latencySamples s"
  "dirtyMetrics (foldl seedMetric s ms) = dirtyMetrics s \<union> set (map metric ms)"
  "dom (metricState (foldl seedMetric s ms)) = dom (metricState s) \<union> set (map metric ms)"
  by (induction ms arbitrary: s) (auto simp: seedMetric_def)

lemma init_cases:
  "(getContext c = None
      \<and> onMessage clock (Init c ms w h r) s =
          Inl (ContextUnavailable,
               s\<lparr>canvas := Some (c\<lparr>OffscreenCanvas.width := w * r,
                                    OffscreenCanvas.height := h * r\<rparr>),
                 metrics := ms, width := w, height := h, dpr := r, ctx := None\<rparr>))
   \<or> (\<exists>cx s'. getContext c \<noteq> None
          \<and> onMessage clock (Init c ms w h r) s = Inr s'
          \<and> canvas s' = Some (c\<lparr>OffscreenCanvas.width := w * r,
                                  OffscreenCanvas.height := h * r\<rparr>)
          \<and> ctx s' = Some cx \<and> metrics s' = ms \<and> width s' = w \<and> height s' = h
          \<and> needsFullRedraw s'
          \<and> dirtyMetrics s' = set (map metric ms)
          \<and> dom (metricState s') = dom (metricState s) \<union> set (map metric ms)
          \<and> latencySamples s' = latencySamples s)"
proof (cases "getContext c")
  case None
  then show ?thesis
    by (simp add: resize_def ensureContext_def Let_def)
next
  case (Some cx)
  then show ?thesis
    by (simp add: resize_def ensureContext_def Let_def foldl_seedMetric foldl_insert_ids)
qed

lemma renderFrame_fields:
  "canvas (fst (renderFrame now start finish s)) = canvas s"
  "ctx (fst (renderFrame now start finish s)) = ctx s"
  "width (fst (renderFrame now start finish s)) = width s"
  "height (fst (renderFrame now start finish s)) = height s"
  "metrics (fst (renderFrame now start finish s)) = metrics s"
  "metricState (fst (renderFrame now start finish s)) = metricState s"
  "latencySamples (fst (renderFrame now start finish s)) = latencySamples s"
  "dirtyMetrics (fst (renderFrame now start finish s)) \<subseteq> dirtyMetrics s"
  by (auto simp: renderFrame_def Let_def split_beta split: option.splits if_splits)

section \<open>The latency window\<close>

lemma metricsBatch_samples:
  assumes "length (latencySamples s) \<le> 360"
  shows "latencySamples (metricsBatch clock k us s)
           = most_recent 360 (latencySamples s @ batch_latencies clock k us)"
  using assms
proof (induction us arbitrary: k s)
  case Nil
  then show ?case by (simp add: most_recent_def)
next
  case (Cons u us)
  have l: "length (latencySamples (applyUpdate (clock k) u s)) \<le> 360"
    by (simp add: applyUpdate_samples most_recent_def)
  show ?case
    using Cons.IH [OF l, of "Suc k"]
    by (simp add: applyUpdate_samples most_recent_append)
qed

lemma step_samples:
  assumes "length (latencySamples s) \<le> 360"
  shows "latencySamples (worker_step e s) = most_recent 360 (latencySamples s @ observed [e])"
proof (cases e)
  case (Frame now start finish)
  then show ?thesis using assms by (simp add: renderFrame_fields most_recent_def)
next
  case (Message clock m)
  show ?thesis
  proof (cases m)
    case (Init c ms w h r)
    have "latencySamples (state_of (onMessage clock (Init c ms w h r) s)) = latencySamples s"
      using init_cases [of c clock ms w h r s]
      by (auto simp: state_of_def simp del: onMessage.simps)
    then show ?thesis
      using Message Init assms by (simp add: most_recent_def del: onMessage.simps)
  next
    case (Resize w h r)
    have "latencySamples (state_of (resize w h r s)) = latencySamples s"
      using resize_cases [of w h r s] by (auto simp: state_of_def)
    then show ?thesis using Message Resize assms by (simp add: most_recent_def)
  next
    case (MetricsBatch us)
    then show ?thesis
      using Message metricsBatch_samples [OF assms, of clock 0 us] by (simp add: state_of_def)
  qed
qed

lemma observed_Cons: "observed (e # es) = observed [e] @ observed es"
  by (cases "(e # es)" rule: observed.cases) auto

lemma run_samples:
  assumes "length (latencySamples s) \<le> 360"
  shows "latencySamples (worker_run es s) = most_recent 360 (latencySamples s @ observed es)"
  using assms
proof (induction es arbitrary: s)
  case Nil
  then show ?case by (simp add: most_recent_def)
next
  case (Cons e es)
  have l: "length (latencySamples (worker_step e s)) \<le> 360"
    using step_samples [OF Cons.prems, of e] by (simp add: most_recent_length)
  have "latencySamples (worker_run (e # es) s)
          = most_recent 360 (most_recent 360 (latencySamples s @ observed [e]) @ observed es)"
    using Cons.IH [OF l] step_samples [OF Cons.prems, of e] by simp
  also have "\<dots> = most_recent 360 (latencySamples s @ observed (e # es))"
    using observed_Cons [of e es] by (simp add: most_recent_append)
  finally show ?case .
qed

text \<open>
  C3. After every applied update the latency window holds at most 360 samples, from any
  state. In every state the worker reaches from its initial one, the window holds at most
  360 samples and is exactly the newest 360 of all the samples pushed so far, in the order
  pushed: once more than 360 have been pushed, the oldest are the ones gone.
\<close>

theorem latency_window_bounded_fifo:
  "length (latencySamples (applyUpdate now update s)) \<le> 360
   \<and> length (latencySamples (worker_run es (initialWorker t0))) \<le> 360
   \<and> latencySamples (worker_run es (initialWorker t0)) = most_recent 360 (observed es)
   \<and> latencySamples (worker_run es (initialWorker t0))
       = drop (length (observed es) - 360) (observed es)"
proof -
  have i: "length (latencySamples (initialWorker t0)) \<le> 360"
    by (simp add: initialWorker_def)
  have r: "latencySamples (worker_run es (initialWorker t0)) = most_recent 360 (observed es)"
    using run_samples [OF i, of es] by (simp add: initialWorker_def)
  have "length (latencySamples (applyUpdate now update s)) \<le> 360"
    by (simp add: applyUpdate_samples most_recent_def)
  then show ?thesis
    using r most_recent_length [of "observed es"] by (simp add: most_recent_def)
qed

section \<open>The dirty set\<close>

lemma step_ids:
  "dirtyMetrics (worker_step e s) \<union> set (map metric (metrics (worker_step e s)))
     \<subseteq> dirtyMetrics s \<union> set (map metric (metrics s)) \<union> catalog_ids [e] \<union> update_ids [e]"
proof (cases e)
  case (Frame now start finish)
  then show ?thesis
    using renderFrame_fields(8) [of now start finish s]
    by (auto simp: renderFrame_fields(5))
next
  case (Message clock m)
  show ?thesis
  proof (cases m)
    case (Init c ms w h r)
    then show ?thesis
      using Message init_cases [of c clock ms w h r s]
      by (auto simp: state_of_def)
  next
    case (Resize w h r)
    then show ?thesis
      using Message resize_cases [of w h r s]
      by (auto simp: state_of_def)
  next
    case (MetricsBatch us)
    then show ?thesis
      using Message by (auto simp: state_of_def metricsBatch_fields)
  qed
qed

lemma catalog_ids_Cons: "catalog_ids (e # es) = catalog_ids [e] \<union> catalog_ids es"
  by (cases "(e # es)" rule: catalog_ids.cases) auto

lemma update_ids_Cons: "update_ids (e # es) = update_ids [e] \<union> update_ids es"
  by (cases "(e # es)" rule: update_ids.cases) auto

lemma run_ids:
  "dirtyMetrics (worker_run es s) \<union> set (map metric (metrics (worker_run es s)))
     \<subseteq> dirtyMetrics s \<union> set (map metric (metrics s)) \<union> catalog_ids es \<union> update_ids es"
proof (induction es arbitrary: s)
  case Nil
  show ?case by simp
next
  case (Cons e es)
  have "dirtyMetrics (worker_run (e # es) s) \<union> set (map metric (metrics (worker_run (e # es) s)))
        \<subseteq> dirtyMetrics (worker_step e s) \<union> set (map metric (metrics (worker_step e s)))
            \<union> catalog_ids es \<union> update_ids es"
    using Cons.IH [of "worker_step e s"] by simp
  also have "\<dots> \<subseteq> dirtyMetrics s \<union> set (map metric (metrics s))
                  \<union> (catalog_ids [e] \<union> catalog_ids es) \<union> (update_ids [e] \<union> update_ids es)"
    using step_ids [of e s] by blast
  finally show ?case
    using catalog_ids_Cons [of e es] update_ids_Cons [of e es] by simp
qed

lemmas sample_run_simps =
  sample_init_def sample_batch_def sample_speed_batch_def sample_canvas_def sample_catalog_def
  sample_unlisted_def sample_speed_def initialWorker_def resize_def ensureContext_def
  Let_def state_of_def seedMetric_def applyUpdate_def

text \<open>
  C4, as stated, fails: after an init with the catalog speed, rpm, a batch carrying an
  update for tyrePressure puts that id into the dirty set, and it is not a catalog id.
\<close>

theorem dirty_set_leaves_catalog:
  "''tyrePressure'' \<in> dirtyMetrics (worker_run [sample_init, sample_batch] (initialWorker 0))
   \<and> ''tyrePressure'' \<notin> set (map metric sample_catalog)
   \<and> metrics (worker_run [sample_init, sample_batch] (initialWorker 0)) = sample_catalog
   \<and> \<not> dirtyMetrics (worker_run [sample_init, sample_batch] (initialWorker 0))
         \<subseteq> set (map metric (metrics (worker_run [sample_init, sample_batch] (initialWorker 0))))"
proof -
  have d: "dirtyMetrics (worker_run [sample_init, sample_batch] (initialWorker 0))
             = {''tyrePressure'', ''rpm'', ''speed''}"
    by (auto simp: sample_run_simps)
  have m: "metrics (worker_run [sample_init, sample_batch] (initialWorker 0)) = sample_catalog"
    by (simp add: sample_run_simps)
  have c: "set (map metric sample_catalog) = {''speed'', ''rpm''}"
    by (simp add: sample_catalog_def)
  show ?thesis unfolding m d c by simp
qed

text \<open>
  C4, amended. In every state the worker reaches from its initial one, every id in the
  dirty set is a metric id of a catalog passed by an init message or the metric id of an
  update of an applied batch. So when every applied update carries a catalog id, the
  dirty set is a subset of the catalog ids.
\<close>

theorem dirty_set_within_catalog_and_updates:
  "dirtyMetrics (worker_run es (initialWorker t0)) \<subseteq> catalog_ids es \<union> update_ids es
   \<and> (update_ids es \<subseteq> catalog_ids es \<longrightarrow>
        dirtyMetrics (worker_run es (initialWorker t0)) \<subseteq> catalog_ids es)"
proof -
  have "dirtyMetrics (worker_run es (initialWorker t0)) \<subseteq> catalog_ids es \<union> update_ids es"
    using run_ids [of es "initialWorker t0"] by (simp add: initialWorker_def)
  then show ?thesis by blast
qed

theorem dirty_set_within_catalog_and_updates_witness:
  "update_ids [sample_init, sample_speed_batch] \<subseteq> catalog_ids [sample_init, sample_speed_batch]
   \<and> catalog_ids [sample_init, sample_speed_batch] = {''speed'', ''rpm''}
   \<and> dirtyMetrics (worker_run [sample_init, sample_speed_batch] (initialWorker 0))
       \<subseteq> catalog_ids [sample_init, sample_speed_batch]"
proof -
  have u: "update_ids [sample_init, sample_speed_batch] = {''speed''}"
    by (simp add: sample_init_def sample_speed_batch_def sample_speed_def)
  have c: "catalog_ids [sample_init, sample_speed_batch] = {''speed'', ''rpm''}"
    by (simp add: sample_init_def sample_speed_batch_def sample_catalog_def)
  have h: "update_ids [sample_init, sample_speed_batch]
             \<subseteq> catalog_ids [sample_init, sample_speed_batch]"
    unfolding u c by simp
  show ?thesis
    using h c dirty_set_within_catalog_and_updates [of "[sample_init, sample_speed_batch]" 0]
    by blast
qed

section \<open>The debug report of a frame\<close>

lemma renderFrame_message:
  assumes "ctx s \<noteq> None"
  shows "message (snd (renderFrame now start finish s)) =
           Some (Debug (if now - lastFrameTime s > 0 then 1000 / (now - lastFrameTime s)
                        else fps s)
                       (finish - start)
                       (quantile (latencySamples s) 0.5)
                       (quantile (latencySamples s) 0.95))"
  using assms by (auto simp: renderFrame_def Let_def split_beta split: option.splits)

lemma renderFrame_idle:
  assumes "ctx s \<noteq> None" "\<not> needsFullRedraw s" "dirtyMetrics s = {}"
  shows "calls (snd (renderFrame now start finish s)) = []"
  using assms by (auto simp: renderFrame_def Let_def split_beta split: option.splits)

lemmas sample_frame_simps =
  sample_run_simps renderFrame_def quantile_def split_beta

text \<open>
  C9, as stated, fails on the fps value: a frame whose timestamp equals the previous
  frame's has \<open>now - lastFrameTime = 0\<close>, and its report repeats the previous fps, here
  10, which is not \<open>1000 / (now - lastFrameTime)\<close> in any reading (10 times the zero
  difference is not 1000).
\<close>

theorem debug_report_fps_kept_without_progress:
  "lastFrameTime (worker_run [sample_init, Frame 100 100 101] (initialWorker 0)) = 100
   \<and> fps (worker_run [sample_init, Frame 100 100 101] (initialWorker 0)) = 10
   \<and> message (snd (renderFrame 100 100 101
                      (worker_run [sample_init, Frame 100 100 101] (initialWorker 0))))
       = Some (Debug 10 1 (Some 0) (Some 0))
   \<and> (10::real) * (100 - 100) \<noteq> 1000
   \<and> (10::real) \<noteq> 1000 / (100 - 100)"
  by (simp add: sample_frame_simps)

text \<open>
  C9, amended. Once the drawing context is acquired, every frame posts a debug report
  with exactly four values, whether or not it drew anything: the fps, which is
  \<open>1000 / (now - lastFrameTime)\<close> when \<open>now\<close> is later than \<open>lastFrameTime\<close> and the
  previous fps otherwise; the time the drawing took; and the 0.5 and 0.95 quantiles of
  the latency window, both defined. A frame with no full redraw pending and an empty
  dirty set makes no canvas call and still posts the report.
\<close>

theorem debug_report_every_frame:
  assumes "ctx s \<noteq> None"
  shows "message (snd (renderFrame now start finish s)) =
           Some (Debug (if now - lastFrameTime s > 0 then 1000 / (now - lastFrameTime s)
                        else fps s)
                       (finish - start)
                       (Some (quantile_spec (latencySamples s) 0.5))
                       (Some (quantile_spec (latencySamples s) 0.95)))
         \<and> quantile (latencySamples s) 0.5 = Some (quantile_spec (latencySamples s) 0.5)
         \<and> quantile (latencySamples s) 0.95 = Some (quantile_spec (latencySamples s) 0.95)
         \<and> (\<not> needsFullRedraw s \<and> dirtyMetrics s = {} \<longrightarrow>
               calls (snd (renderFrame now start finish s)) = [])"
proof -
  have q50: "quantile (latencySamples s) 0.5 = Some (quantile_spec (latencySamples s) 0.5)"
    by (rule quantile_in_range) simp_all
  have q95: "quantile (latencySamples s) 0.95 = Some (quantile_spec (latencySamples s) 0.95)"
    by (rule quantile_in_range) simp_all
  show ?thesis
    using renderFrame_message [OF assms, of now start finish]
          renderFrame_idle [OF assms, of now start finish] q50 q95
    by simp
qed

theorem debug_report_every_frame_witness:
  "ctx (worker_run [sample_init, Frame 16 16 17] (initialWorker 0)) \<noteq> None
   \<and> \<not> needsFullRedraw (worker_run [sample_init, Frame 16 16 17] (initialWorker 0))
   \<and> dirtyMetrics (worker_run [sample_init, Frame 16 16 17] (initialWorker 0)) = {}
   \<and> message (snd (renderFrame 36 36 38
                      (worker_run [sample_init, Frame 16 16 17] (initialWorker 0))))
       = Some (Debug 50 2 (Some 0) (Some 0))
   \<and> calls (snd (renderFrame 36 36 38
                    (worker_run [sample_init, Frame 16 16 17] (initialWorker 0)))) = []"
proof -
  have c: "ctx (worker_run [sample_init, Frame 16 16 17] (initialWorker 0)) \<noteq> None"
    by (simp add: sample_frame_simps)
  have n: "\<not> needsFullRedraw (worker_run [sample_init, Frame 16 16 17] (initialWorker 0))"
    by (simp add: sample_frame_simps)
  have d: "dirtyMetrics (worker_run [sample_init, Frame 16 16 17] (initialWorker 0)) = {}"
    by (simp add: sample_frame_simps)
  have l: "lastFrameTime (worker_run [sample_init, Frame 16 16 17] (initialWorker 0)) = 16"
    by (simp add: sample_frame_simps)
  have w: "latencySamples (worker_run [sample_init, Frame 16 16 17] (initialWorker 0)) = []"
    by (simp add: sample_frame_simps)
  have q: "quantile_spec [] q = 0" for q
    by (simp add: quantile_spec_def)
  note t = debug_report_every_frame [OF c, of 36 36 38]
  from t have m: "message (snd (renderFrame 36 36 38
                      (worker_run [sample_init, Frame 16 16 17] (initialWorker 0))))
       = Some (Debug (if 36 - lastFrameTime (worker_run [sample_init, Frame 16 16 17] (initialWorker 0)) > 0
                      then 1000 / (36 - lastFrameTime (worker_run [sample_init, Frame 16 16 17] (initialWorker 0)))
                      else fps (worker_run [sample_init, Frame 16 16 17] (initialWorker 0)))
                     (38 - 36)
                     (Some (quantile_spec (latencySamples (worker_run [sample_init, Frame 16 16 17] (initialWorker 0))) 0.5))
                     (Some (quantile_spec (latencySamples (worker_run [sample_init, Frame 16 16 17] (initialWorker 0))) 0.95)))"
    by blast
  have m': "message (snd (renderFrame 36 36 38
                      (worker_run [sample_init, Frame 16 16 17] (initialWorker 0))))
       = Some (Debug 50 2 (Some 0) (Some 0))"
    unfolding m l w q by simp
  from t n d have k: "calls (snd (renderFrame 36 36 38
                    (worker_run [sample_init, Frame 16 16 17] (initialWorker 0)))) = []"
    by blast
  show ?thesis
    using c n d m' k by blast
qed

section \<open>Resize forces a full redraw\<close>

lemma step_context:
  assumes "ctx s \<noteq> None \<longrightarrow> has_context s"
      and "has_context s \<longrightarrow> set (map metric (metrics s)) \<subseteq> dom (metricState s)"
  shows "(ctx (worker_step e s) \<noteq> None \<longrightarrow> has_context (worker_step e s))
       \<and> (has_context (worker_step e s) \<longrightarrow>
            set (map metric (metrics (worker_step e s))) \<subseteq> dom (metricState (worker_step e s)))"
proof (cases e)
  case (Frame now start finish)
  then show ?thesis
    using assms by (simp add: renderFrame_fields has_context_iff)
next
  case (Message clock m)
  show ?thesis
  proof (cases m)
    case (Init c ms w h r)
    have st: "worker_step e s = state_of (onMessage clock (Init c ms w h r) s)"
      using Message Init by simp
    from init_cases [of c clock ms w h r s] show ?thesis
    proof (elim disjE conjE exE)
      assume "getContext c = None"
         and "onMessage clock (Init c ms w h r) s =
                Inl (ContextUnavailable,
                     s\<lparr>canvas := Some (c\<lparr>OffscreenCanvas.width := w * r,
                                          OffscreenCanvas.height := h * r\<rparr>),
                       metrics := ms, width := w, height := h, dpr := r, ctx := None\<rparr>)"
      then show ?thesis
        unfolding st by (simp add: state_of_def has_context_iff)
    next
      fix cx s'
      assume "getContext c \<noteq> None" "onMessage clock (Init c ms w h r) s = Inr s'"
         "canvas s' = Some (c\<lparr>OffscreenCanvas.width := w * r, OffscreenCanvas.height := h * r\<rparr>)"
         "metrics s' = ms" "dom (metricState s') = dom (metricState s) \<union> set (map metric ms)"
      then show ?thesis
        unfolding st by (simp add: state_of_def has_context_iff)
    qed
  next
    case (Resize w h r)
    then show ?thesis
      using Message assms resize_cases [of w h r s]
      by (auto simp: state_of_def has_context_iff subset_iff dom_def)
  next
    case (MetricsBatch us)
    then show ?thesis
      using Message assms by (auto simp: state_of_def metricsBatch_fields has_context_iff)
  qed
qed

lemma run_context:
  "(ctx (worker_run es (initialWorker t0)) \<noteq> None \<longrightarrow> has_context (worker_run es (initialWorker t0)))
   \<and> (has_context (worker_run es (initialWorker t0)) \<longrightarrow>
        set (map metric (metrics (worker_run es (initialWorker t0))))
          \<subseteq> dom (metricState (worker_run es (initialWorker t0))))"
proof -
  have gen: "(ctx s \<noteq> None \<longrightarrow> has_context s) \<Longrightarrow>
             (has_context s \<longrightarrow> set (map metric (metrics s)) \<subseteq> dom (metricState s)) \<Longrightarrow>
             (ctx (worker_run es s) \<noteq> None \<longrightarrow> has_context (worker_run es s))
             \<and> (has_context (worker_run es s) \<longrightarrow>
                  set (map metric (metrics (worker_run es s)))
                    \<subseteq> dom (metricState (worker_run es s)))"
    for s
  proof (induction es arbitrary: s)
    case Nil
    then show ?case by simp
  next
    case (Cons e es)
    show ?case
      using Cons.IH [of "worker_step e s"] step_context [of s e] Cons.prems by simp
  qed
  show ?thesis
    by (rule gen) (simp_all add: initialWorker_def has_context_iff)
qed

lemma drawMetric_cong:
  "ctx s = ctx s' \<Longrightarrow> width s = width s' \<Longrightarrow> drawMetric s m i = drawMetric s' m i"
proof -
  assume c: "ctx s = ctx s'" and w: "width s = width s'"
  have e: "computeCardRect s i = computeCardRect s' i"
    using w by (simp add: computeCardRect_def)
  show ?thesis unfolding drawMetric_def c e by (rule refl)
qed

lemma drawBackground_Some:
  "ctx s = Some cx \<Longrightarrow>
   drawBackground s = [FillStyle backgroundColor, FillRect 0 0 (width s) (height s)]"
  by (simp add: drawBackground_def)

lemma renderFrame_full:
  assumes "ctx s = Some cx" "needsFullRedraw s"
  shows "calls (snd (renderFrame now start finish s)) =
           drawBackground s @
           concat (map (\<lambda>(index, descriptor).
                          case metricState s (metric descriptor) of
                            None \<Rightarrow> []
                          | Some state \<Rightarrow> drawMetric s state index)
                       (enumerate 0 (metrics s)))"
    and "\<not> needsFullRedraw (fst (renderFrame now start finish s))"
    and "dirtyMetrics (fst (renderFrame now start finish s)) = {}"
proof -
  have d: "drawMetric (s\<lparr>fps := f, lastFrameTime := t\<rparr>) = drawMetric s" for f t
    by (intro ext drawMetric_cong) simp_all
  have d': "drawMetric (s\<lparr>lastFrameTime := t\<rparr>) = drawMetric s" for t
    by (intro ext drawMetric_cong) simp_all
  show "calls (snd (renderFrame now start finish s)) =
           drawBackground s @
           concat (map (\<lambda>(index, descriptor).
                          case metricState s (metric descriptor) of
                            None \<Rightarrow> []
                          | Some state \<Rightarrow> drawMetric s state index)
                       (enumerate 0 (metrics s)))"
    using assms
    by (simp add: renderFrame_def Let_def d d' drawBackground_def cong: option.case_cong)
  show "\<not> needsFullRedraw (fst (renderFrame now start finish s))"
    using assms by (simp add: renderFrame_def Let_def)
  show "dirtyMetrics (fst (renderFrame now start finish s)) = {}"
    using assms by (simp add: renderFrame_def Let_def)
qed

lemma batches_fields:
  "ctx (worker_run (batches bs) s) = ctx s"
  "width (worker_run (batches bs) s) = width s"
  "height (worker_run (batches bs) s) = height s"
  "metrics (worker_run (batches bs) s) = metrics s"
  "needsFullRedraw (worker_run (batches bs) s) = needsFullRedraw s"
  by (induction bs arbitrary: s) (auto simp: state_of_def metricsBatch_fields)

lemma batches_dom: "dom (metricState s) \<subseteq> dom (metricState (worker_run (batches bs) s))"
proof (induction bs arbitrary: s)
  case Nil
  show ?case by simp
next
  case (Cons b bs)
  obtain clock us where b: "b = (clock, us)" by (cases b)
  have "dom (metricState s) \<subseteq> dom (metricState (metricsBatch clock 0 us s))"
    by (simp add: metricsBatch_fields)
  also have "\<dots> \<subseteq> dom (metricState (worker_run (batches bs) (metricsBatch clock 0 us s)))"
    by (rule Cons.IH)
  finally show ?case by (simp add: b state_of_def)
qed

lemma card_calls:
  "ctx s = Some cx \<Longrightarrow> computeCardRect s i = (x, y, cw, ch) \<Longrightarrow>
   FillRect x y cw ch \<in> set (drawMetric s m i)"
  by (simp add: drawMetric_def)

text \<open>
  C6. Let the worker be in a state it reaches from its initial one, with the drawing
  context acquired, whatever its dirty set. Then \<open>resize\<close> succeeds, and the next frame,
  also after any batches applied in between, does a full redraw: its canvas calls are the
  background fill over the new width and height followed, in catalog order, by the card
  of every catalog metric, each of which has a render state; the card of index \<open>i\<close> is
  filled at the rectangle the grid gives index \<open>i\<close> at the new width. After that frame
  the full-redraw flag is off and the dirty set is empty.
\<close>

theorem resize_forces_full_redraw:
  assumes "s = worker_run es (initialWorker t0)" and "ctx s \<noteq> None"
  shows "\<exists>s1. resize w h r s = Inr s1
           \<and> needsFullRedraw (worker_run (batches bs) s1)
           \<and> calls (snd (renderFrame now start finish (worker_run (batches bs) s1))) =
                [FillStyle backgroundColor, FillRect 0 0 w h] @
                concat (map (\<lambda>(index, descriptor).
                               drawMetric (worker_run (batches bs) s1)
                                 (the (metricState (worker_run (batches bs) s1) (metric descriptor)))
                                 index)
                            (enumerate 0 (metrics s)))
           \<and> list_all (\<lambda>descriptor.
                  metricState (worker_run (batches bs) s1) (metric descriptor) \<noteq> None) (metrics s)
           \<and> list_all (\<lambda>(index, descriptor).
                  case computeCardRect (s\<lparr>width := w\<rparr>) index of
                    (x, y, cardWidth, cardHeight) \<Rightarrow>
                      FillRect x y cardWidth cardHeight
                        \<in> set (calls (snd (renderFrame now start finish
                                             (worker_run (batches bs) s1)))))
                (enumerate 0 (metrics s))
           \<and> metrics (worker_run (batches bs) s1) = metrics s
           \<and> \<not> needsFullRedraw (fst (renderFrame now start finish (worker_run (batches bs) s1)))
           \<and> dirtyMetrics (fst (renderFrame now start finish (worker_run (batches bs) s1))) = {}"
proof -
  have bk: "has_context s" using run_context [of es t0] assms by simp
  then have seeded: "set (map metric (metrics s)) \<subseteq> dom (metricState s)"
    using run_context [of es t0] assms(1) by simp
  from bk resize_cases [of w h r s] obtain c cx where
    rs: "resize w h r s =
           Inr (s\<lparr>width := w, height := h, dpr := r,
                  canvas := Some (c\<lparr>OffscreenCanvas.width := w * r,
                                   OffscreenCanvas.height := h * r\<rparr>),
                  ctx := Some cx,
                  dirtyMetrics := set (map metric (metrics s)),
                  needsFullRedraw := True\<rparr>)"
    by (auto simp: has_context_iff)
  define s1 where
    "s1 = s\<lparr>width := w, height := h, dpr := r,
            canvas := Some (c\<lparr>OffscreenCanvas.width := w * r, OffscreenCanvas.height := h * r\<rparr>),
            ctx := Some cx,
            dirtyMetrics := set (map metric (metrics s)),
            needsFullRedraw := True\<rparr>"
  define s2 where "s2 = worker_run (batches bs) s1"
  have f: "ctx s2 = Some cx" "width s2 = w" "height s2 = h" "metrics s2 = metrics s"
          "needsFullRedraw s2"
    by (simp_all add: s2_def batches_fields s1_def)
  have "dom (metricState s1) \<subseteq> dom (metricState s2)"
    unfolding s2_def by (rule batches_dom)
  then have dom2: "set (map metric (metrics s)) \<subseteq> dom (metricState s2)"
    using seeded by (simp add: s1_def)
  have present: "metricState s2 (metric d) \<noteq> None" if "d \<in> set (metrics s)" for d
    using dom2 that by auto
  have all: "list_all (\<lambda>descriptor. metricState s2 (metric descriptor) \<noteq> None) (metrics s)"
    using present by (simp add: list_all_iff)
  have m: "map (\<lambda>(index, descriptor).
                  case metricState s2 (metric descriptor) of
                    None \<Rightarrow> []
                  | Some state \<Rightarrow> drawMetric s2 state index)
               (enumerate 0 (metrics s))
         = map (\<lambda>(index, descriptor).
                  drawMetric s2 (the (metricState s2 (metric descriptor))) index)
               (enumerate 0 (metrics s))"
  proof (rule map_cong [OF refl])
    fix p assume "p \<in> set (enumerate 0 (metrics s))"
    then have "fst p < length (metrics s) \<and> metrics s ! fst p = snd p"
      by (simp add: in_set_enumerate_eq)
    then have "snd p \<in> set (metrics s)"
      using nth_mem [of "fst p" "metrics s"] by simp
    then show "(case p of (index, descriptor) \<Rightarrow>
                  case metricState s2 (metric descriptor) of
                    None \<Rightarrow> []
                  | Some state \<Rightarrow> drawMetric s2 state index)
             = (case p of (index, descriptor) \<Rightarrow>
                  drawMetric s2 (the (metricState s2 (metric descriptor))) index)"
      using present [of "snd p"] by (cases p) auto
  qed
  have c: "calls (snd (renderFrame now start finish s2)) =
             [FillStyle backgroundColor, FillRect 0 0 w h] @
             concat (map (\<lambda>(index, descriptor).
                            drawMetric s2 (the (metricState s2 (metric descriptor))) index)
                         (enumerate 0 (metrics s)))"
    using renderFrame_full(1) [OF f(1) f(5), of now start finish] m
    by (simp add: drawBackground_Some [OF f(1)] f)
  have cr: "computeCardRect s2 i = computeCardRect (s\<lparr>width := w\<rparr>) i" for i
    by (simp add: computeCardRect_def f)
  have cells: "list_all (\<lambda>(index, descriptor).
                  case computeCardRect (s\<lparr>width := w\<rparr>) index of
                    (x, y, cardWidth, cardHeight) \<Rightarrow>
                      FillRect x y cardWidth cardHeight
                        \<in> set (calls (snd (renderFrame now start finish s2))))
                (enumerate 0 (metrics s))"
    unfolding list_all_iff
  proof
    fix p assume p: "p \<in> set (enumerate 0 (metrics s))"
    obtain i d where pd: "p = (i, d)" by (cases p)
    obtain x y cw ch where r: "computeCardRect s2 i = (x, y, cw, ch)"
      by (cases "computeCardRect s2 i")
    have "FillRect x y cw ch \<in> set (drawMetric s2 (the (metricState s2 (metric d))) i)"
      using card_calls [OF f(1) r] .
    then have "FillRect x y cw ch \<in> set (calls (snd (renderFrame now start finish s2)))"
      unfolding c using p pd by (auto intro!: bexI [of _ "(i, d)"])
    then show "case p of (index, descriptor) \<Rightarrow>
                 case computeCardRect (s\<lparr>width := w\<rparr>) index of
                   (x, y, cardWidth, cardHeight) \<Rightarrow>
                     FillRect x y cardWidth cardHeight
                       \<in> set (calls (snd (renderFrame now start finish s2)))"
      using r by (simp add: pd cr [symmetric])
  qed
  have "resize w h r s = Inr s1" using rs by (simp add: s1_def)
  then show ?thesis
    using f(4,5) c all cells renderFrame_full(2,3) [OF f(1) f(5), of now start finish]
    unfolding s2_def by blast
qed

theorem resize_forces_full_redraw_witness:
  "ctx (worker_run [sample_init, sample_speed_batch] (initialWorker 0)) \<noteq> None
   \<and> (\<exists>s1. resize 800 600 2 (worker_run [sample_init, sample_speed_batch] (initialWorker 0)) = Inr s1
           \<and> needsFullRedraw (worker_run (batches []) s1)
           \<and> calls (snd (renderFrame 16 16 17 (worker_run (batches []) s1))) =
                [FillStyle backgroundColor, FillRect 0 0 800 600] @
                concat (map (\<lambda>(index, descriptor).
                               drawMetric (worker_run (batches []) s1)
                                 (the (metricState (worker_run (batches []) s1) (metric descriptor)))
                                 index)
                            (enumerate 0 (metrics (worker_run [sample_init, sample_speed_batch] (initialWorker 0)))))
           \<and> list_all (\<lambda>descriptor.
                  metricState (worker_run (batches []) s1) (metric descriptor) \<noteq> None) (metrics (worker_run [sample_init, sample_speed_batch] (initialWorker 0)))
           \<and> list_all (\<lambda>(index, descriptor).
                  case computeCardRect ((worker_run [sample_init, sample_speed_batch] (initialWorker 0))\<lparr>width := 800\<rparr>) index of
                    (x, y, cardWidth, cardHeight) \<Rightarrow>
                      FillRect x y cardWidth cardHeight
                        \<in> set (calls (snd (renderFrame 16 16 17
                                             (worker_run (batches []) s1)))))
                (enumerate 0 (metrics (worker_run [sample_init, sample_speed_batch] (initialWorker 0))))
           \<and> metrics (worker_run (batches []) s1) = metrics (worker_run [sample_init, sample_speed_batch] (initialWorker 0))
           \<and> \<not> needsFullRedraw (fst (renderFrame 16 16 17 (worker_run (batches []) s1)))
           \<and> dirtyMetrics (fst (renderFrame 16 16 17 (worker_run (batches []) s1))) = {})"
proof -
  have h: "ctx (worker_run [sample_init, sample_speed_batch] (initialWorker 0)) \<noteq> None"
    by (simp add: sample_run_simps)
  show ?thesis
    by (rule conjI [OF h resize_forces_full_redraw [OF refl h]])
qed

end
